theory Spec2Isabelle
  imports Main "HOL-Library.Char_ord" "HOL-Library.List_Lexorder" "HOL-Library.Dlist"
begin

section \<open>Cells, strings and data frames\<close>

text \<open>
  The analysis functions of \<^verbatim>\<open>app.py\<close> read two pandas data frames row by row.
  A cell of a frame is either empty (pandas' NaN) or a text; numeric and date cells are
  not modelled. Texts are ASCII: a \<^typ>\<open>char\<close> is one byte, and \<open>strip\<close> and \<open>upper\<close>
  below act on the ASCII range only, where they agree with Python's \<^verbatim>\<open>str.strip()\<close>
  and \<^verbatim>\<open>str.upper()\<close>.
\<close>

datatype cell = NaN | Text string

text \<open>\<^verbatim>\<open>str(x)\<close>: the empty cell prints as \<^verbatim>\<open>'nan'\<close>, a text is itself.\<close>

fun str :: "cell \<Rightarrow> string" where
  "str NaN = ''nan''"
| "str (Text s) = s"

text \<open>
  \<^verbatim>\<open>str.isspace\<close> on ASCII: tab, line feed, vertical tab, form feed, carriage return,
  the four separators \<^verbatim>\<open>\x1c\<close> to \<^verbatim>\<open>\x1f\<close>, and the space.
\<close>

definition isspace :: "char \<Rightarrow> bool" where
  "isspace c = (let n = (of_char c :: nat) in (9 \<le> n \<and> n \<le> 13) \<or> (28 \<le> n \<and> n \<le> 32))"

text \<open>\<^verbatim>\<open>s.strip()\<close>: drop the white space at both ends.\<close>

definition strip :: "string \<Rightarrow> string" where
  "strip s = rev (dropWhile isspace (rev (dropWhile isspace s)))"

text \<open>\<^verbatim>\<open>s.upper()\<close>: the letters \<^verbatim>\<open>a\<close> to \<^verbatim>\<open>z\<close> move to \<^verbatim>\<open>A\<close> to \<^verbatim>\<open>Z\<close>.\<close>

definition upper_char :: "char \<Rightarrow> char" where
  "upper_char c = (let n = (of_char c :: nat) in if 97 \<le> n \<and> n \<le> 122 then char_of (n - 32) else c)"

definition upper :: "string \<Rightarrow> string" where
  "upper s = map upper_char s"

text \<open>
  A data frame: the column labels and the rows. pandas pads a row that is shorter than
  the header with empty cells, so a cell that the row does not hold reads as \<open>NaN\<close>.
  Column labels are taken to be distinct (with a repeated label pandas returns a Series,
  which is not modelled; \<open>cell_at\<close> reads the first column of that label).
\<close>

datatype error = KeyError string

record dataframe =
  columns :: "string list"
  rows :: "cell list list"

definition cell_at :: "string list \<Rightarrow> cell list \<Rightarrow> string \<Rightarrow> cell" where
  "cell_at cols row k = (case map_of (zip cols row) k of None \<Rightarrow> NaN | Some v \<Rightarrow> v)"

text \<open>\<^verbatim>\<open>row[k]\<close> raises \<^verbatim>\<open>KeyError(k)\<close> when no column is labelled \<open>k\<close>.\<close>

definition getitem :: "string list \<Rightarrow> cell list \<Rightarrow> string \<Rightarrow> error + cell" where
  "getitem cols row k = (if k \<in> set cols then Inr (cell_at cols row k) else Inl (KeyError k))"

text \<open>\<^verbatim>\<open>df.columns = df.columns.str.strip().str.upper()\<close>\<close>

definition normalize_columns :: "dataframe \<Rightarrow> dataframe" where
  "normalize_columns df = df\<lparr>columns := map (\<lambda>c. upper (strip c)) (columns df)\<rparr>"

text \<open>\<^verbatim>\<open>load_rule_book\<close>, after \<^verbatim>\<open>pd.read_excel\<close> has produced the frame.\<close>

definition load_rule_book :: "dataframe \<Rightarrow> dataframe" where
  "load_rule_book df = normalize_columns df"

section \<open>The rule book\<close>

text \<open>
  \<^verbatim>\<open>conflict_risk_map\<close> is a Python dict keyed by sorted pairs of codes. It is an
  association list in insertion order with distinct keys: \<^verbatim>\<open>pair in m\<close> is
  \<open>map_of m pair \<noteq> None\<close>, \<^verbatim>\<open>m[pair]\<close> is \<open>map_of m pair\<close>, \<^verbatim>\<open>len(m)\<close> is \<open>length m\<close>.
\<close>

type_synonym risk_map = "((string \<times> string) \<times> string) list"

text \<open>\<^verbatim>\<open>tuple(sorted((t1, t2)))\<close>; the sort is stable, so equal strings keep their places.\<close>

definition sorted_pair :: "string \<Rightarrow> string \<Rightarrow> string \<times> string" where
  "sorted_pair t1 t2 = (if t2 < t1 then (t2, t1) else (t1, t2))"

text \<open>The body of the loop of \<^verbatim>\<open>process_rule_book\<close>, on one row.\<close>

definition rule_row :: "string list \<Rightarrow> cell list \<Rightarrow> risk_map \<Rightarrow> error + risk_map" where
  "rule_row cols row conflict_risk_map =
     (case getitem cols row ''TCODE1'' of Inl e \<Rightarrow> Inl e | Inr c1 \<Rightarrow>
      case getitem cols row ''TCODE2'' of Inl e \<Rightarrow> Inl e | Inr c2 \<Rightarrow>
      case getitem cols row ''ASK_RISK'' of Inl e \<Rightarrow> Inl e | Inr c3 \<Rightarrow>
        (let t1 = upper (strip (str c1));
             t2 = upper (strip (str c2));
             risk = strip (str c3)
         in if t1 \<noteq> [] \<and> t2 \<noteq> [] \<and> t1 \<noteq> ''NAN'' \<and> t2 \<noteq> ''NAN'' \<and> t1 \<noteq> t2
            then (let pair = sorted_pair t1 t2
                  in if map_of conflict_risk_map pair = None
                     then Inr (conflict_risk_map @ [(pair, risk)])
                     else Inr conflict_risk_map)
            else Inr conflict_risk_map))"

fun rule_rows :: "string list \<Rightarrow> cell list list \<Rightarrow> risk_map \<Rightarrow> error + risk_map" where
  "rule_rows cols [] conflict_risk_map = Inr conflict_risk_map"
| "rule_rows cols (row # rest) conflict_risk_map =
     (case rule_row cols row conflict_risk_map of
        Inl e \<Rightarrow> Inl e
      | Inr m \<Rightarrow> rule_rows cols rest m)"

definition process_rule_book :: "dataframe \<Rightarrow> error + risk_map" where
  "process_rule_book rule_df = rule_rows (columns rule_df) (rows rule_df) []"

section \<open>The access table\<close>

text \<open>
  \<^verbatim>\<open>role_to_tcodes\<close> is a \<^verbatim>\<open>defaultdict(set)\<close> and \<^verbatim>\<open>user_role_tcodes\<close> a
  \<^verbatim>\<open>defaultdict\<close> of such dicts. A dict is an association list in insertion order; a
  Python set is a \<^typ>\<open>string dlist\<close>: its elements are distinct and its iteration
  order is whatever the list has, as Python promises no order for a set.
\<close>

type_synonym role_tcodes = "(string \<times> string dlist) list"
type_synonym user_role_tcodes = "(string \<times> role_tcodes) list"

text \<open>\<^verbatim>\<open>d[role].add(tcode)\<close>, creating the entry for \<open>role\<close> when it is new.\<close>

fun add_tcode :: "string \<Rightarrow> string \<Rightarrow> role_tcodes \<Rightarrow> role_tcodes" where
  "add_tcode role tcode [] = [(role, Dlist.insert tcode Dlist.empty)]"
| "add_tcode role tcode ((r, s) # d) =
     (if r = role then (r, Dlist.insert tcode s) # d else (r, s) # add_tcode role tcode d)"

text \<open>\<^verbatim>\<open>d[user][role].add(tcode)\<close>\<close>

fun add_user_tcode :: "string \<Rightarrow> string \<Rightarrow> string \<Rightarrow> user_role_tcodes \<Rightarrow> user_role_tcodes" where
  "add_user_tcode user role tcode [] = [(user, add_tcode role tcode [])]"
| "add_user_tcode user role tcode ((u, rd) # d) =
     (if u = user then (u, add_tcode role tcode rd) # d
      else (u, rd) # add_user_tcode user role tcode d)"

text \<open>The body of the loop of \<^verbatim>\<open>process_user_access\<close>, on one row.\<close>

definition access_row ::
  "string list \<Rightarrow> cell list \<Rightarrow> user_role_tcodes \<times> role_tcodes \<Rightarrow> error + (user_role_tcodes \<times> role_tcodes)" where
  "access_row cols row st =
     (case getitem cols row ''USER NAME'' of Inl e \<Rightarrow> Inl e | Inr c1 \<Rightarrow>
      case getitem cols row ''ROLE'' of Inl e \<Rightarrow> Inl e | Inr c2 \<Rightarrow>
      case getitem cols row ''AUTHORIZATION VALUE'' of Inl e \<Rightarrow> Inl e | Inr c3 \<Rightarrow>
        (let user = strip (str c1);
             role = strip (str c2);
             tcode = upper (strip (str c3))
         in if user \<noteq> [] \<and> role \<noteq> [] \<and> tcode \<noteq> [] \<and> tcode \<noteq> ''NAN''
            then Inr (add_user_tcode user role tcode (fst st), add_tcode role tcode (snd st))
            else Inr st))"

fun access_rows ::
  "string list \<Rightarrow> cell list list \<Rightarrow> user_role_tcodes \<times> role_tcodes \<Rightarrow> error + (user_role_tcodes \<times> role_tcodes)" where
  "access_rows cols [] st = Inr st"
| "access_rows cols (row # rest) st =
     (case access_row cols row st of
        Inl e \<Rightarrow> Inl e
      | Inr st' \<Rightarrow> access_rows cols rest st')"

definition process_user_access :: "dataframe \<Rightarrow> error + (user_role_tcodes \<times> role_tcodes)" where
  "process_user_access user_df =
     access_rows (columns (normalize_columns user_df)) (rows user_df) ([], [])"

section \<open>Detecting violations\<close>

text \<open>\<^verbatim>\<open>itertools.combinations(xs, 2)\<close>: every position paired with every later one.\<close>

fun combinations2 :: "'a list \<Rightarrow> ('a \<times> 'a) list" where
  "combinations2 [] = []"
| "combinations2 (x # xs) = map (Pair x) xs @ combinations2 xs"

text \<open>
  A role-level violation is a dict with the keys \<^verbatim>\<open>ROLE\<close>, \<^verbatim>\<open>TCODE_1\<close>, \<^verbatim>\<open>TCODE_2\<close>
  and \<^verbatim>\<open>RISK_FACTOR\<close>; a user-level violation has the key \<^verbatim>\<open>USER_NAME\<close> as well.
\<close>

record role_violation =
  ROLE :: string
  TCODE_1 :: string
  TCODE_2 :: string
  RISK_FACTOR :: string

record user_violation = role_violation +
  USER_NAME :: string

text \<open>
  The innermost loop, shared by both passes: the pairs of the code set that the rule
  book knows, each as the sorted pair with its risk.
\<close>

definition conflicts_in :: "risk_map \<Rightarrow> string dlist \<Rightarrow> ((string \<times> string) \<times> string) list" where
  "conflicts_in conflict_risk_map tcodes =
     concat (map (\<lambda>(t1, t2). let pair = sorted_pair t1 t2
                             in (case map_of conflict_risk_map pair of
                                   None \<Rightarrow> []
                                 | Some risk \<Rightarrow> [(pair, risk)]))
                 (combinations2 (list_of_dlist tcodes)))"

definition user_pass :: "user_role_tcodes \<Rightarrow> risk_map \<Rightarrow> user_violation list" where
  "user_pass user_role_tcodes conflict_risk_map =
     concat (map (\<lambda>(user, roles_dict).
       concat (map (\<lambda>(role, tcodes).
         map (\<lambda>(pair, risk). \<lparr>ROLE = role, TCODE_1 = fst pair, TCODE_2 = snd pair,
                               RISK_FACTOR = risk, USER_NAME = user\<rparr>)
             (conflicts_in conflict_risk_map tcodes)) roles_dict)) user_role_tcodes)"

definition role_pass :: "role_tcodes \<Rightarrow> risk_map \<Rightarrow> role_violation list" where
  "role_pass role_to_tcodes conflict_risk_map =
     concat (map (\<lambda>(role, tcodes).
       map (\<lambda>(pair, risk). \<lparr>ROLE = role, TCODE_1 = fst pair, TCODE_2 = snd pair,
                             RISK_FACTOR = risk\<rparr>)
           (conflicts_in conflict_risk_map tcodes)) role_to_tcodes)"

definition analyze_violations ::
  "user_role_tcodes \<Rightarrow> role_tcodes \<Rightarrow> risk_map \<Rightarrow> user_violation list \<times> role_violation list" where
  "analyze_violations user_role_tcodes role_to_tcodes conflict_risk_map =
     (user_pass user_role_tcodes conflict_risk_map, role_pass role_to_tcodes conflict_risk_map)"

section \<open>The analysis run\<close>

text \<open>
  The \<^verbatim>\<open>try\<close> block of \<^verbatim>\<open>main\<close>: the values it stores in the session state, or the
  exception that its \<^verbatim>\<open>except\<close> clause reports.
\<close>

record session_state =
  conflict_pairs :: nat
  total_users :: nat
  total_roles :: nat
  user_violations :: "user_violation list"
  role_violations :: "role_violation list"

definition run_analysis :: "dataframe \<Rightarrow> dataframe \<Rightarrow> error + session_state" where
  "run_analysis rule_book_file user_access_file =
     (let rule_df = load_rule_book rule_book_file
      in case process_rule_book rule_df of Inl e \<Rightarrow> Inl e | Inr conflict_risk_map \<Rightarrow>
         case process_user_access user_access_file of Inl e \<Rightarrow> Inl e | Inr (user_role_tcodes, role_to_tcodes) \<Rightarrow>
           (case analyze_violations user_role_tcodes role_to_tcodes conflict_risk_map of
              (uv, rv) \<Rightarrow>
                Inr \<lparr>conflict_pairs = length conflict_risk_map,
                     total_users = length user_role_tcodes,
                     total_roles = length role_to_tcodes,
                     user_violations = uv,
                     role_violations = rv\<rparr>))"

section \<open>Auxiliary predicates\<close>

text \<open>What the test of the rule loop guarantees of every key it stores.\<close>

definition rule_key :: "string \<times> string \<Rightarrow> bool" where
  "rule_key k = (fst k < snd k \<and> fst k \<noteq> [] \<and> snd k \<noteq> [] \<and> fst k \<noteq> ''NAN'' \<and> snd k \<noteq> ''NAN'')"

text \<open>
  The test of the access loop, on the cells of a row: the trimmed user and role and the
  trimmed, uppercased code are non-empty and the code is not \<open>NAN\<close>.
\<close>

definition access_kept :: "string list \<Rightarrow> cell list \<Rightarrow> bool" where
  "access_kept cols row =
     (strip (str (cell_at cols row ''USER NAME'')) \<noteq> [] \<and>
      strip (str (cell_at cols row ''ROLE'')) \<noteq> [] \<and>
      upper (strip (str (cell_at cols row ''AUTHORIZATION VALUE''))) \<noteq> [] \<and>
      upper (strip (str (cell_at cols row ''AUTHORIZATION VALUE''))) \<noteq> ''NAN'')"

section \<open>Basic facts\<close>

lemma getitem_present: "k \<in> set cols \<Longrightarrow> getitem cols row k = Inr (cell_at cols row k)"
  by (simp add: getitem_def)

lemma getitem_absent: "k \<notin> set cols \<Longrightarrow> getitem cols row k = Inl (KeyError k)"
  by (simp add: getitem_def)

lemma sorted_pair_commute: "sorted_pair a b = sorted_pair b a"
  by (auto simp: sorted_pair_def)

lemma sorted_pair_less: "a \<noteq> b \<Longrightarrow> fst (sorted_pair a b) < snd (sorted_pair a b)"
  by (auto simp: sorted_pair_def)

lemma rule_key_sorted_pair:
  "t1 \<noteq> [] \<Longrightarrow> t2 \<noteq> [] \<Longrightarrow> t1 \<noteq> ''NAN'' \<Longrightarrow> t2 \<noteq> ''NAN'' \<Longrightarrow> t1 \<noteq> t2 \<Longrightarrow> rule_key (sorted_pair t1 t2)"
  by (auto simp: rule_key_def sorted_pair_def)

subsection \<open>The loops, split at a row\<close>

lemma rule_rows_append:
  "rule_rows cols (pre @ post) m =
     (case rule_rows cols pre m of Inl e \<Rightarrow> Inl e | Inr m' \<Rightarrow> rule_rows cols post m')"
  by (induction pre arbitrary: m) (auto split: sum.splits)

lemma rule_rows_skip:
  assumes "\<And>m. rule_row cols row m = Inr m"
  shows "rule_rows cols (pre @ row # post) m = rule_rows cols (pre @ post) m"
  using assms by (simp add: rule_rows_append split: sum.splits)

lemma access_rows_append:
  "access_rows cols (pre @ post) st =
     (case access_rows cols pre st of Inl e \<Rightarrow> Inl e | Inr st' \<Rightarrow> access_rows cols post st')"
  by (induction pre arbitrary: st) (auto split: sum.splits)

lemma access_rows_skip:
  assumes "\<And>st. access_row cols row st = Inr st"
  shows "access_rows cols (pre @ row # post) st = access_rows cols (pre @ post) st"
  using assms by (simp add: access_rows_append split: sum.splits)

subsection \<open>The keys of the rule book\<close>

lemma rule_row_keys:
  assumes "rule_row cols row m = Inr m'" and "\<forall>k \<in> fst ` set m. rule_key k"
  shows "\<forall>k \<in> fst ` set m'. rule_key k"
  using assms
  by (auto simp: rule_row_def Let_def rule_key_sorted_pair split: sum.splits if_splits)

lemma rule_rows_keys:
  assumes "rule_rows cols rs m = Inr m'" and "\<forall>k \<in> fst ` set m. rule_key k"
  shows "\<forall>k \<in> fst ` set m'. rule_key k"
  using assms
proof (induction rs arbitrary: m)
  case Nil
  then show ?case by simp
next
  case (Cons r rs)
  from Cons.prems(1) obtain m1
    where r: "rule_row cols r m = Inr m1" and rest: "rule_rows cols rs m1 = Inr m'"
    by (auto split: sum.splits)
  from rule_row_keys [OF r Cons.prems(2)] have "\<forall>k \<in> fst ` set m1. rule_key k" .
  with Cons.IH [OF rest] show ?case by blast
qed

lemma process_rule_book_keys:
  assumes "process_rule_book df = Inr m"
  shows "\<forall>k \<in> fst ` set m. rule_key k"
  using rule_rows_keys [of "columns df" "rows df" "[]" m] assms
  by (simp add: process_rule_book_def)

section \<open>The end-to-end example\<close>

text \<open>
  C4. The rule table \<open>[(TX1, TX2, High)]\<close> and the access table
  \<open>[(Alice, R1, TX1), (Alice, R1, TX2), (Bob, R2, TX1)]\<close> give exactly one user-level
  violation (Alice, R1, TX1, TX2, High), exactly one role-level violation
  (R1, TX1, TX2, High), and the counts 1 conflict pair, 2 users, 2 roles.
\<close>

theorem end_to_end_example:
  "run_analysis
     \<lparr>columns = [''TCODE1'', ''TCODE2'', ''ASK_RISK''],
      rows = [[Text ''TX1'', Text ''TX2'', Text ''High'']]\<rparr>
     \<lparr>columns = [''USER NAME'', ''ROLE'', ''AUTHORIZATION VALUE''],
      rows = [[Text ''Alice'', Text ''R1'', Text ''TX1''],
              [Text ''Alice'', Text ''R1'', Text ''TX2''],
              [Text ''Bob'', Text ''R2'', Text ''TX1'']]\<rparr>
   = Inr \<lparr>conflict_pairs = 1, total_users = 2, total_roles = 2,
          user_violations =
            [\<lparr>ROLE = ''R1'', TCODE_1 = ''TX1'', TCODE_2 = ''TX2'',
              RISK_FACTOR = ''High'', USER_NAME = ''Alice''\<rparr>],
          role_violations =
            [\<lparr>ROLE = ''R1'', TCODE_1 = ''TX1'', TCODE_2 = ''TX2'',
              RISK_FACTOR = ''High''\<rparr>]\<rparr>"
  by code_simp

section \<open>Rows that the rule loop drops\<close>

text \<open>
  C9. A rule row whose two codes are equal after trimming and uppercasing is dropped
  without error: the loop body leaves the rule book as it was, so the table with the row
  gives the same result as the table without it; and no rule book that
  \<open>process_rule_book\<close> returns has an entry whose two codes are equal.
\<close>

theorem self_conflict_excluded:
  "(process_rule_book df = Inr m \<longrightarrow> (\<forall>k \<in> fst ` set m. fst k \<noteq> snd k)) \<and>
   ({''TCODE1'', ''TCODE2'', ''ASK_RISK''} \<subseteq> set (columns df) \<and>
    upper (strip (str (cell_at (columns df) row ''TCODE1''))) =
    upper (strip (str (cell_at (columns df) row ''TCODE2'')))
    \<longrightarrow> rule_row (columns df) row m0 = Inr m0 \<and>
        process_rule_book (df\<lparr>rows := pre @ row # post\<rparr>) =
        process_rule_book (df\<lparr>rows := pre @ post\<rparr>))"
proof (intro conjI impI)
  assume "process_rule_book df = Inr m"
  from process_rule_book_keys [OF this]
  show "\<forall>k \<in> fst ` set m. fst k \<noteq> snd k"
    by (auto simp: rule_key_def)
next
  assume a: "{''TCODE1'', ''TCODE2'', ''ASK_RISK''} \<subseteq> set (columns df) \<and>
    upper (strip (str (cell_at (columns df) row ''TCODE1''))) =
    upper (strip (str (cell_at (columns df) row ''TCODE2'')))"
  have step: "rule_row (columns df) row m = Inr m" for m
    using a by (simp add: rule_row_def getitem_present Let_def)
  show "rule_row (columns df) row m0 = Inr m0"
    by (rule step)
  show "process_rule_book (df\<lparr>rows := pre @ row # post\<rparr>) =
        process_rule_book (df\<lparr>rows := pre @ post\<rparr>)"
    using step rule_rows_skip [of "columns df" row pre post "[]"]
    by (simp add: process_rule_book_def)
qed

theorem self_conflict_excluded_witness:
  "process_rule_book
     \<lparr>columns = [''TCODE1'', ''TCODE2'', ''ASK_RISK''],
      rows = [[Text ''TX1'', Text ''TX2'', Text ''High''],
              [Text '' tx3'', Text ''TX3  '', Text ''Low'']]\<rparr>
   = Inr [((''TX1'', ''TX2''), ''High'')] \<and>
   rule_row [''TCODE1'', ''TCODE2'', ''ASK_RISK'']
     [Text '' tx3'', Text ''TX3  '', Text ''Low''] [((''TX1'', ''TX2''), ''High'')]
   = Inr [((''TX1'', ''TX2''), ''High'')] \<and>
   fst (''TX1'', ''TX2'') \<noteq> snd (''TX1'', ''TX2'')"
proof -
  let ?cols = "[''TCODE1'', ''TCODE2'', ''ASK_RISK'']"
  let ?r1 = "[Text ''TX1'', Text ''TX2'', Text ''High'']"
  let ?r2 = "[Text '' tx3'', Text ''TX3  '', Text ''Low'']"
  let ?df = "\<lparr>columns = ?cols, rows = [?r1]\<rparr>"
  let ?m = "[((''TX1'', ''TX2''), ''High'')]"
  have h1: "{''TCODE1'', ''TCODE2'', ''ASK_RISK''} \<subseteq> set (columns ?df)"
    by simp
  have h2: "upper (strip (str (cell_at (columns ?df) ?r2 ''TCODE1''))) =
            upper (strip (str (cell_at (columns ?df) ?r2 ''TCODE2'')))"
    by code_simp
  have h3: "process_rule_book ?df = Inr ?m"
    by code_simp
  from self_conflict_excluded [of ?df ?m ?r2 ?m "[?r1]" "[]"] h1 h2 h3
  show ?thesis by simp
qed

section \<open>Where a violation comes from\<close>

lemma conflicts_in_member:
  assumes "(k, risk) \<in> set (conflicts_in m d)"
  shows "map_of m k = Some risk \<and>
         (\<exists>t1 t2. (t1, t2) \<in> set (combinations2 (list_of_dlist d)) \<and> k = sorted_pair t1 t2)"
  using assms
  by (auto simp: conflicts_in_def Let_def split: option.splits)

lemma user_pass_member:
  assumes "v \<in> set (user_pass urt m)"
  shows "\<exists>rd d. (USER_NAME v, rd) \<in> set urt \<and> (ROLE v, d) \<in> set rd \<and>
           ((TCODE_1 v, TCODE_2 v), RISK_FACTOR v) \<in> set (conflicts_in m d)"
  using assms by (fastforce simp: user_pass_def)

lemma role_pass_member:
  assumes "v \<in> set (role_pass rtt m)"
  shows "\<exists>d. (ROLE v, d) \<in> set rtt \<and>
           ((TCODE_1 v, TCODE_2 v), RISK_FACTOR v) \<in> set (conflicts_in m d)"
  using assms by (fastforce simp: role_pass_def)

section \<open>The code spelled NAN\<close>

text \<open>
  C10. A code whose trimmed, uppercased form is \<open>NAN\<close> is treated as absent: a rule row
  holding it in either code column leaves the rule book as it was, an access row holding
  it leaves both access structures as they were (each table gives the same result with
  the row as without it), and no violation of any run names \<open>NAN\<close> as one of its codes.
\<close>

theorem nan_code_is_absent:
  "({''TCODE1'', ''TCODE2'', ''ASK_RISK''} \<subseteq> set (columns rule_df) \<and>
    (upper (strip (str (cell_at (columns rule_df) row ''TCODE1''))) = ''NAN'' \<or>
     upper (strip (str (cell_at (columns rule_df) row ''TCODE2''))) = ''NAN'')
    \<longrightarrow> process_rule_book (rule_df\<lparr>rows := pre @ row # post\<rparr>) =
        process_rule_book (rule_df\<lparr>rows := pre @ post\<rparr>)) \<and>
   ({''USER NAME'', ''ROLE'', ''AUTHORIZATION VALUE''} \<subseteq> set (columns (normalize_columns user_df)) \<and>
    upper (strip (str (cell_at (columns (normalize_columns user_df)) arow ''AUTHORIZATION VALUE''))) = ''NAN''
    \<longrightarrow> process_user_access (user_df\<lparr>rows := apre @ arow # apost\<rparr>) =
        process_user_access (user_df\<lparr>rows := apre @ apost\<rparr>)) \<and>
   (run_analysis rule_book_file user_access_file = Inr st
    \<longrightarrow> (\<forall>v \<in> set (user_violations st). TCODE_1 v \<noteq> ''NAN'' \<and> TCODE_2 v \<noteq> ''NAN'') \<and>
        (\<forall>v \<in> set (role_violations st). TCODE_1 v \<noteq> ''NAN'' \<and> TCODE_2 v \<noteq> ''NAN''))"
proof (intro conjI impI)
  assume a: "{''TCODE1'', ''TCODE2'', ''ASK_RISK''} \<subseteq> set (columns rule_df) \<and>
    (upper (strip (str (cell_at (columns rule_df) row ''TCODE1''))) = ''NAN'' \<or>
     upper (strip (str (cell_at (columns rule_df) row ''TCODE2''))) = ''NAN'')"
  have step: "rule_row (columns rule_df) row m = Inr m" for m
    using a by (auto simp: rule_row_def getitem_present Let_def)
  show "process_rule_book (rule_df\<lparr>rows := pre @ row # post\<rparr>) =
        process_rule_book (rule_df\<lparr>rows := pre @ post\<rparr>)"
    using step rule_rows_skip [of "columns rule_df" row pre post "[]"]
    by (simp add: process_rule_book_def)
next
  let ?cols = "columns (normalize_columns user_df)"
  assume a: "{''USER NAME'', ''ROLE'', ''AUTHORIZATION VALUE''} \<subseteq> set ?cols \<and>
    upper (strip (str (cell_at ?cols arow ''AUTHORIZATION VALUE''))) = ''NAN''"
  have step: "access_row ?cols arow s = Inr s" for s
    using a by (simp add: access_row_def getitem_present Let_def)
  have cols: "columns (normalize_columns (user_df\<lparr>rows := rs\<rparr>)) = ?cols" for rs
    by (simp add: normalize_columns_def)
  show "process_user_access (user_df\<lparr>rows := apre @ arow # apost\<rparr>) =
        process_user_access (user_df\<lparr>rows := apre @ apost\<rparr>)"
    using step access_rows_skip [of ?cols arow apre apost "([], [])"]
    by (simp add: process_user_access_def cols)
next
  assume run: "run_analysis rule_book_file user_access_file = Inr st"
  then obtain m urt rtt where m: "process_rule_book (load_rule_book rule_book_file) = Inr m"
    and uv: "user_violations st = user_pass urt m"
    and rv: "role_violations st = role_pass rtt m"
    by (auto simp: run_analysis_def Let_def analyze_violations_def split: sum.splits prod.splits)
  have keys: "map_of m (a, b) = Some risk \<Longrightarrow> a \<noteq> ''NAN'' \<and> b \<noteq> ''NAN''" for a b risk
    using process_rule_book_keys [OF m] map_of_SomeD [of m "(a, b)" risk]
    by (force simp: rule_key_def)
  show "\<forall>v \<in> set (user_violations st). TCODE_1 v \<noteq> ''NAN'' \<and> TCODE_2 v \<noteq> ''NAN''"
    using user_pass_member [of _ urt m] conflicts_in_member [of _ _ m] keys
    unfolding uv by blast
  show "\<forall>v \<in> set (role_violations st). TCODE_1 v \<noteq> ''NAN'' \<and> TCODE_2 v \<noteq> ''NAN''"
    using role_pass_member [of _ rtt m] conflicts_in_member [of _ _ m] keys
    unfolding rv by blast
qed


theorem nan_code_is_absent_witness:
  "process_rule_book
     \<lparr>columns = [''TCODE1'', ''TCODE2'', ''ASK_RISK''],
      rows = [[Text ''nan'', Text ''TX1'', Text ''High''], [Text ''TX1'', Text ''TX2'', Text ''High'']]\<rparr> =
   process_rule_book
     \<lparr>columns = [''TCODE1'', ''TCODE2'', ''ASK_RISK''],
      rows = [[Text ''TX1'', Text ''TX2'', Text ''High'']]\<rparr> \<and>
   process_user_access
     \<lparr>columns = [''USER NAME'', ''ROLE'', ''AUTHORIZATION VALUE''],
      rows = [[Text ''Alice'', Text ''R1'', Text ''TX1''], [Text ''Alice'', Text ''R1'', Text '' NaN ''],
              [Text ''Alice'', Text ''R1'', Text ''TX2'']]\<rparr> =
   process_user_access
     \<lparr>columns = [''USER NAME'', ''ROLE'', ''AUTHORIZATION VALUE''],
      rows = [[Text ''Alice'', Text ''R1'', Text ''TX1''], [Text ''Alice'', Text ''R1'', Text ''TX2'']]\<rparr> \<and>
   TCODE_1 \<lparr>ROLE = ''R1'', TCODE_1 = ''TX1'', TCODE_2 = ''TX2'', RISK_FACTOR = ''High'',
             USER_NAME = ''Alice''\<rparr> \<noteq> ''NAN'' \<and>
   TCODE_2 \<lparr>ROLE = ''R1'', TCODE_1 = ''TX1'', TCODE_2 = ''TX2'', RISK_FACTOR = ''High'',
             USER_NAME = ''Alice''\<rparr> \<noteq> ''NAN''"
proof -
  let ?rcols = "[''TCODE1'', ''TCODE2'', ''ASK_RISK'']"
  let ?acols = "[''USER NAME'', ''ROLE'', ''AUTHORIZATION VALUE'']"
  let ?r0 = "[Text ''nan'', Text ''TX1'', Text ''High'']"
  let ?r1 = "[Text ''TX1'', Text ''TX2'', Text ''High'']"
  let ?a1 = "[Text ''Alice'', Text ''R1'', Text ''TX1'']"
  let ?a0 = "[Text ''Alice'', Text ''R1'', Text '' NaN '']"
  let ?a2 = "[Text ''Alice'', Text ''R1'', Text ''TX2'']"
  let ?rdf = "\<lparr>columns = ?rcols, rows = [?r1]\<rparr>"
  let ?adf = "\<lparr>columns = ?acols, rows = [?a1, ?a2]\<rparr>"
  let ?st = "\<lparr>conflict_pairs = 1, total_users = 1, total_roles = 1,
          user_violations =
            [\<lparr>ROLE = ''R1'', TCODE_1 = ''TX1'', TCODE_2 = ''TX2'',
              RISK_FACTOR = ''High'', USER_NAME = ''Alice''\<rparr>],
          role_violations =
            [\<lparr>ROLE = ''R1'', TCODE_1 = ''TX1'', TCODE_2 = ''TX2'',
              RISK_FACTOR = ''High''\<rparr>]\<rparr>"
  have h1: "{''TCODE1'', ''TCODE2'', ''ASK_RISK''} \<subseteq> set (columns ?rdf)"
    by simp
  have h2: "upper (strip (str (cell_at (columns ?rdf) ?r0 ''TCODE1''))) = ''NAN''"
    by code_simp
  have h3: "columns (normalize_columns ?adf) = ?acols"
    by code_simp
  have h4: "upper (strip (str (cell_at ?acols ?a0 ''AUTHORIZATION VALUE''))) = ''NAN''"
    by code_simp
  have h5: "run_analysis ?rdf ?adf = Inr ?st"
    by code_simp
  from nan_code_is_absent [where rule_df = ?rdf and row = ?r0 and pre = "[]" and post = "[?r1]"
      and user_df = ?adf and arow = ?a0 and apre = "[?a1]" and apost = "[?a2]"
      and rule_book_file = ?rdf and user_access_file = ?adf and st = ?st] h1 h2 h3 h4 h5
  show ?thesis by simp
qed

section \<open>First write wins\<close>

lemma rule_row_keeps:
  assumes "rule_row cols row m = Inr m'" and "map_of m k = Some s"
  shows "map_of m' k = Some s"
  using assms
  by (auto simp: rule_row_def Let_def split: sum.splits if_splits)

lemma rule_rows_keeps:
  assumes "rule_rows cols rs m = Inr m'" and "map_of m k = Some s"
  shows "map_of m' k = Some s"
  using assms
proof (induction rs arbitrary: m)
  case Nil
  then show ?case by simp
next
  case (Cons r rs)
  from Cons.prems(1) obtain m1
    where r: "rule_row cols r m = Inr m1" and rest: "rule_rows cols rs m1 = Inr m'"
    by (auto split: sum.splits)
  from rule_row_keeps [OF r Cons.prems(2)] Cons.IH [OF rest] show ?case by simp
qed

text \<open>
  C3. For codes whose canonical forms \<open>a\<close> and \<open>b\<close> are present and distinct, the rule
  rows \<open>(a, b, S1)\<close> then \<open>(b, a, S2)\<close> (or then \<open>(a, b, S2)\<close>) leave exactly one entry,
  keyed by the sorted pair, and looking the pair up in either order gives the trimmed
  \<open>S1\<close>. In any table, a severity once stored for a pair is what every later lookup finds.
\<close>

theorem first_write_wins:
  assumes "a = upper (strip (str c1))" and "b = upper (strip (str c2))"
    and "a \<noteq> []" and "b \<noteq> []" and "a \<noteq> ''NAN''" and "b \<noteq> ''NAN''" and "a \<noteq> b"
  shows
   "process_rule_book \<lparr>columns = [''TCODE1'', ''TCODE2'', ''ASK_RISK''],
                       rows = [[c1, c2, s1], [c2, c1, s2]]\<rparr>
      = Inr [(sorted_pair a b, strip (str s1))] \<and>
    process_rule_book \<lparr>columns = [''TCODE1'', ''TCODE2'', ''ASK_RISK''],
                       rows = [[c1, c2, s1], [c1, c2, s2]]\<rparr>
      = Inr [(sorted_pair a b, strip (str s1))] \<and>
    map_of [(sorted_pair a b, strip (str s1))] (sorted_pair a b) = Some (strip (str s1)) \<and>
    map_of [(sorted_pair a b, strip (str s1))] (sorted_pair b a) = Some (strip (str s1)) \<and>
    (\<forall>df pre post m m' k s.
       process_rule_book (df\<lparr>rows := pre\<rparr>) = Inr m \<and> map_of m k = Some s \<and>
       process_rule_book (df\<lparr>rows := pre @ post\<rparr>) = Inr m'
       \<longrightarrow> map_of m' k = Some s)"
proof -
  have ba: "sorted_pair b a = sorted_pair a b"
    by (rule sorted_pair_commute)
  have cells: "cell_at [''TCODE1'', ''TCODE2'', ''ASK_RISK''] [x, y, z] ''TCODE1'' = x"
     "cell_at [''TCODE1'', ''TCODE2'', ''ASK_RISK''] [x, y, z] ''TCODE2'' = y"
     "cell_at [''TCODE1'', ''TCODE2'', ''ASK_RISK''] [x, y, z] ''ASK_RISK'' = z" for x y z
    by (simp_all add: cell_at_def)
  have ab: "upper (strip (str c1)) = a" "upper (strip (str c2)) = b"
    using assms(1,2) by simp_all
  note ne = assms(3-7)
  have 1: "process_rule_book \<lparr>columns = [''TCODE1'', ''TCODE2'', ''ASK_RISK''],
                       rows = [[c1, c2, s1], [c2, c1, s2]]\<rparr>
      = Inr [(sorted_pair a b, strip (str s1))]"
    using ne by (simp add: process_rule_book_def rule_row_def getitem_def cells ab ba Let_def)
  have 2: "process_rule_book \<lparr>columns = [''TCODE1'', ''TCODE2'', ''ASK_RISK''],
                       rows = [[c1, c2, s1], [c1, c2, s2]]\<rparr>
      = Inr [(sorted_pair a b, strip (str s1))]"
    using ne by (simp add: process_rule_book_def rule_row_def getitem_def cells ab Let_def)
  have 3: "map_of m' k = Some s"
    if "process_rule_book (df\<lparr>rows := pre\<rparr>) = Inr m \<and> map_of m k = Some s \<and>
       process_rule_book (df\<lparr>rows := pre @ post\<rparr>) = Inr m'"
    for df :: dataframe and pre post m m' k s
    using that rule_rows_keeps [of "columns df" post m m' k s]
    by (auto simp: process_rule_book_def rule_rows_append split: sum.splits)
  have 4: "map_of [(sorted_pair a b, strip (str s1))] (sorted_pair a b) = Some (strip (str s1))"
    by simp
  have 5: "map_of [(sorted_pair a b, strip (str s1))] (sorted_pair b a) = Some (strip (str s1))"
    by (simp add: ba)
  have 6: "\<forall>df pre post m m' k s.
       process_rule_book (df\<lparr>rows := pre\<rparr>) = Inr m \<and> map_of m k = Some s \<and>
       process_rule_book (df\<lparr>rows := pre @ post\<rparr>) = Inr m'
       \<longrightarrow> map_of m' k = Some s"
    using 3 by blast
  show ?thesis
    by (intro conjI) (rule 1 2 4 5 6)+
qed

theorem first_write_wins_witness:
  "process_rule_book \<lparr>columns = [''TCODE1'', ''TCODE2'', ''ASK_RISK''],
                      rows = [[Text '' tx1'', Text ''TX2'', Text ''High ''],
                              [Text ''TX2'', Text '' tx1'', Text ''Low'']]\<rparr>
     = Inr [((''TX1'', ''TX2''), ''High'')] \<and>
   map_of [((''TX1'', ''TX2''), ''High'')] (sorted_pair ''TX2'' ''TX1'') = Some ''High''"
proof -
  have h1: "''TX1'' = upper (strip (str (Text '' tx1'')))"
    by code_simp
  have h2: "''TX2'' = upper (strip (str (Text ''TX2'')))"
    by code_simp
  have h3: "strip (str (Text ''High '')) = ''High''"
    by code_simp
  have h4: "sorted_pair ''TX1'' ''TX2'' = (''TX1'', ''TX2'')"
    by code_simp
  have "''TX1'' \<noteq> []" and "''TX2'' \<noteq> []" and "''TX1'' \<noteq> ''NAN''" and "''TX2'' \<noteq> ''NAN''"
    and "''TX1'' \<noteq> ''TX2''"
    by simp_all
  from first_write_wins [OF h1 h2 this, of "Text ''High ''" "Text ''Low''"]
  show ?thesis
    unfolding h3 h4 by blast
qed

section \<open>Pairs of codes\<close>

lemma combinations2_member:
  "(x, y) \<in> set (combinations2 xs) \<Longrightarrow> x \<in> set xs \<and> y \<in> set xs"
  by (induction xs) auto

lemma combinations2_distinct:
  "distinct xs \<Longrightarrow> (x, y) \<in> set (combinations2 xs) \<Longrightarrow> x \<noteq> y"
  by (induction xs) (auto dest: combinations2_member)

lemma length_combinations2:
  "length (combinations2 xs) = length xs * (length xs - 1) div 2"
proof (induction xs)
  case Nil
  then show ?case by simp
next
  case (Cons x xs)
  have "length xs + length xs * (length xs - 1) div 2 = (length xs + 1) * length xs div 2"
    by (cases "length xs") (simp_all add: algebra_simps)
  with Cons show ?case by simp
qed

lemma sorted_pair_min_max: "sorted_pair t1 t2 = (min t1 t2, max t1 t2)"
  by (auto simp: sorted_pair_def min_def max_def)

lemma sorted_pair_eq_iff:
  "sorted_pair a b = sorted_pair c d \<longleftrightarrow> (a = c \<and> b = d) \<or> (a = d \<and> b = c)"
  by (auto simp: sorted_pair_def split: if_splits)

lemma distinct_sorted_combinations2:
  "distinct xs \<Longrightarrow> distinct (map (\<lambda>(t1, t2). sorted_pair t1 t2) (combinations2 xs))"
proof (induction xs)
  case Nil
  then show ?case by simp
next
  case (Cons x xs)
  have inj: "inj_on (sorted_pair x) (set xs)"
    by (auto simp: inj_on_def sorted_pair_eq_iff)
  have d1: "distinct (map (sorted_pair x) xs)"
    using Cons.prems inj by (simp add: distinct_map)
  have d2: "distinct (map (\<lambda>(t1, t2). sorted_pair t1 t2) (combinations2 xs))"
    using Cons by simp
  have disj: "sorted_pair x y \<noteq> sorted_pair t1 t2"
    if "y \<in> set xs" and "(t1, t2) \<in> set (combinations2 xs)" for y t1 t2
    using that Cons.prems combinations2_member [of t1 t2 xs]
    by (auto simp: sorted_pair_eq_iff)
  show ?case
    using d1 d2 disj disj [THEN not_sym] by (auto simp: comp_def)
qed

lemma conflicts_in_codes:
  assumes "(k, risk) \<in> set (conflicts_in m d)"
  shows "fst k < snd k"
proof -
  from assms obtain t1 t2 where c: "(t1, t2) \<in> set (combinations2 (list_of_dlist d))"
    and k: "k = sorted_pair t1 t2"
    using conflicts_in_member by blast
  from combinations2_distinct [OF _ c] have "t1 \<noteq> t2" by simp
  with k show ?thesis by (simp add: sorted_pair_less)
qed

text \<open>
  C7. Every violation that either pass emits, for any access structures and any rule
  book, has \<open>TCODE_1\<close> strictly below \<open>TCODE_2\<close> in the lexicographic order; the
  recorded pair is (smaller, larger) of the two codes, whichever was enumerated first.
\<close>

theorem codes_recorded_ascending:
  "(\<forall>v \<in> set (fst (analyze_violations urt rtt m)). TCODE_1 v < TCODE_2 v) \<and>
   (\<forall>v \<in> set (snd (analyze_violations urt rtt m)). TCODE_1 v < TCODE_2 v) \<and>
   sorted_pair t1 t2 = (min t1 t2, max t1 t2) \<and>
   sorted_pair t1 t2 = sorted_pair t2 t1"
proof (intro conjI ballI)
  fix v assume "v \<in> set (fst (analyze_violations urt rtt m))"
  then have "v \<in> set (user_pass urt m)" by (simp add: analyze_violations_def)
  from user_pass_member [OF this] conflicts_in_codes [of "(TCODE_1 v, TCODE_2 v)" "RISK_FACTOR v" m]
  show "TCODE_1 v < TCODE_2 v" by auto
next
  fix v assume "v \<in> set (snd (analyze_violations urt rtt m))"
  then have "v \<in> set (role_pass rtt m)" by (simp add: analyze_violations_def)
  from role_pass_member [OF this] conflicts_in_codes [of "(TCODE_1 v, TCODE_2 v)" "RISK_FACTOR v" m]
  show "TCODE_1 v < TCODE_2 v" by auto
next
  show "sorted_pair t1 t2 = (min t1 t2, max t1 t2)" by (rule sorted_pair_min_max)
  show "sorted_pair t1 t2 = sorted_pair t2 t1" by (rule sorted_pair_commute)
qed

theorem codes_recorded_ascending_witness:
  "TCODE_1 \<lparr>ROLE = ''R1'', TCODE_1 = ''TX1'', TCODE_2 = ''TX2'', RISK_FACTOR = ''High'',
             USER_NAME = ''Alice''\<rparr>
     < TCODE_2 \<lparr>ROLE = ''R1'', TCODE_1 = ''TX1'', TCODE_2 = ''TX2'', RISK_FACTOR = ''High'',
                 USER_NAME = ''Alice''\<rparr> \<and>
   TCODE_1 \<lparr>ROLE = ''R1'', TCODE_1 = ''TX1'', TCODE_2 = ''TX2'', RISK_FACTOR = ''High''\<rparr>
     < TCODE_2 \<lparr>ROLE = ''R1'', TCODE_1 = ''TX1'', TCODE_2 = ''TX2'', RISK_FACTOR = ''High''\<rparr> \<and>
   sorted_pair ''TX2'' ''TX1'' = (''TX1'', ''TX2'')"
proof -
  let ?d = "Dlist.insert ''TX1'' (Dlist.insert ''TX2'' Dlist.empty)"
  let ?urt = "[(''Alice'', [(''R1'', ?d)])]"
  let ?rtt = "[(''R1'', ?d)]"
  let ?m = "[((''TX1'', ''TX2''), ''High'')]"
  have ev: "analyze_violations ?urt ?rtt ?m =
      ([\<lparr>ROLE = ''R1'', TCODE_1 = ''TX1'', TCODE_2 = ''TX2'', RISK_FACTOR = ''High'',
         USER_NAME = ''Alice''\<rparr>],
       [\<lparr>ROLE = ''R1'', TCODE_1 = ''TX1'', TCODE_2 = ''TX2'', RISK_FACTOR = ''High''\<rparr>])"
    by code_simp
  have mm: "min ''TX2'' ''TX1'' = ''TX1''" "max ''TX2'' ''TX1'' = ''TX2''"
    by (simp_all add: min_def max_def)
  from codes_recorded_ascending [of ?urt ?rtt ?m "''TX2''" "''TX1''"]
  show ?thesis unfolding ev mm by simp
qed

section \<open>Every pair of a code set, once\<close>

lemma three_element_list:
  assumes "distinct xs" and "set xs = {a, b, c}" and "a \<noteq> b" and "a \<noteq> c" and "b \<noteq> c"
  shows "xs \<in> {[a, b, c], [a, c, b], [b, a, c], [b, c, a], [c, a, b], [c, b, a]}"
proof -
  have "length xs = 3"
    using distinct_card [OF assms(1)] assms(2-5) by simp
  then obtain x y z where xs: "xs = [x, y, z]"
    by (auto simp: length_Suc_conv numeral_3_eq_3)
  from assms(1) have d: "x \<noteq> y" "x \<noteq> z" "y \<noteq> z"
    by (auto simp: xs)
  from assms(2) have "{x, y, z} = {a, b, c}"
    by (simp add: xs)
  then have "x \<in> {a, b, c}" "y \<in> {a, b, c}" "z \<in> {a, b, c}"
    by blast+
  with d show ?thesis
    unfolding xs by auto
qed

lemma role_pass_Cons:
  "role_pass ((r, d) # rest) m =
     map (\<lambda>(pair, risk). \<lparr>ROLE = r, TCODE_1 = fst pair, TCODE_2 = snd pair, RISK_FACTOR = risk\<rparr>)
         (conflicts_in m d) @ role_pass rest m"
  by (simp add: role_pass_def)

lemma role_pass_Nil: "role_pass [] m = []"
  by (simp add: role_pass_def)

lemma role_pass_other_roles:
  assumes "r \<notin> fst ` set rtt"
  shows "filter (\<lambda>v. ROLE v = r) (role_pass rtt m) = []"
proof -
  have "ROLE v \<noteq> r" if "v \<in> set (role_pass rtt m)" for v
    using role_pass_member [OF that] assms by force
  then show ?thesis
    by (auto simp: filter_empty_conv)
qed

lemma role_pass_of_role:
  assumes "distinct (map fst rtt)" and "(r, d) \<in> set rtt"
  shows "filter (\<lambda>v. ROLE v = r) (role_pass rtt m) = role_pass [(r, d)] m"
  using assms
proof (induction rtt)
  case Nil
  then show ?case by simp
next
  case (Cons e rest)
  obtain r' d' where e: "e = (r', d')" by (cases e)
  show ?case
  proof (cases "r' = r")
    case True
    with Cons.prems e have "d' = d" and "r \<notin> fst ` set rest"
      by (auto simp: image_iff) 
    then show ?thesis
      using True e role_pass_other_roles [of r rest m]
      by (simp add: role_pass_Cons role_pass_def filter_map comp_def split_def)
  next
    case False
    with Cons.prems e have "(r, d) \<in> set rest" and "distinct (map fst rest)"
      by auto
    from Cons.IH [OF this(2,1)] False e show ?thesis
      by (simp add: role_pass_Cons filter_map comp_def split_def)
  qed
qed

lemma conflicts_in_none:
  assumes "\<forall>t1 \<in> set (list_of_dlist d). \<forall>t2 \<in> set (list_of_dlist d). map_of m (sorted_pair t1 t2) = None"
  shows "conflicts_in m d = []"
proof -
  have "\<not> (k, risk) \<in> set (conflicts_in m d)" for k risk
  proof
    assume "(k, risk) \<in> set (conflicts_in m d)"
    from conflicts_in_member [OF this] obtain t1 t2
      where "map_of m k = Some risk" and "(t1, t2) \<in> set (combinations2 (list_of_dlist d))"
        and "k = sorted_pair t1 t2" by blast
    with assms combinations2_member [of t1 t2 "list_of_dlist d"] show False by auto
  qed
  then show ?thesis
    by (cases "conflicts_in m d") auto
qed

lemma conflicts_in_three:
  assumes "set (list_of_dlist d) = {a, b, c}" and "a \<noteq> b" and "a \<noteq> c" and "b \<noteq> c"
    and "map_of m (sorted_pair a b) = Some s1"
    and "map_of m (sorted_pair a c) = Some s2"
    and "map_of m (sorted_pair b c) = None"
  shows "conflicts_in m d = [(sorted_pair a b, s1), (sorted_pair a c, s2)] \<or>
         conflicts_in m d = [(sorted_pair a c, s2), (sorted_pair a b, s1)]"
proof -
  have sw: "sorted_pair b a = sorted_pair a b" "sorted_pair c a = sorted_pair a c"
    "sorted_pair c b = sorted_pair b c"
    by (rule sorted_pair_commute)+
  from three_element_list [OF distinct_list_of_dlist assms(1-4)]
  show ?thesis
    using assms(5-7) by (auto simp: conflicts_in_def sw)
qed


lemma user_pass_none:
  assumes "distinct (map fst urt)" and "(u, rd) \<in> set urt"
    and "distinct (map fst rd)" and "(r, d) \<in> set rd"
    and "conflicts_in m d = []"
  shows "filter (\<lambda>v. USER_NAME v = u \<and> ROLE v = r) (user_pass urt m) = []"
proof -
  have "\<not> (USER_NAME v = u \<and> ROLE v = r)" if v: "v \<in> set (user_pass urt m)" for v
  proof
    assume ur: "USER_NAME v = u \<and> ROLE v = r"
    from user_pass_member [OF v] ur obtain rd' d'
      where 1: "(u, rd') \<in> set urt" and 2: "(r, d') \<in> set rd'"
        and 3: "((TCODE_1 v, TCODE_2 v), RISK_FACTOR v) \<in> set (conflicts_in m d')"
      by auto
    from eq_key_imp_eq_value [OF assms(1) 1 assms(2)] have "rd' = rd" .
    with 2 eq_key_imp_eq_value [OF assms(3) _ assms(4)] have "d' = d" by blast
    with 3 assms(5) show False by simp
  qed
  then show ?thesis
    by (auto simp: filter_empty_conv)
qed

text \<open>
  C6. For a role whose code set is \<open>{a, b, c}\<close> (in any iteration order), with the pairs
  \<open>{a, b}\<close> and \<open>{a, c}\<close> in the rule book and \<open>{b, c}\<close> not, the role-level pass emits
  exactly two records for that role, one for each of the two pairs. When no pair drawn
  from a code set is in the rule book, the role-level pass emits nothing for that role and
  the user-level pass nothing for that user and role. The pairs enumerated for a code set
  of \<open>k\<close> codes are \<open>k (k - 1) / 2\<close> many and no unordered pair occurs twice.
\<close>

theorem combinatorial_completeness:
  "(distinct (map fst rtt) \<and> (r, d) \<in> set rtt \<and>
    set (list_of_dlist d) = {a, b, c} \<and> a \<noteq> b \<and> a \<noteq> c \<and> b \<noteq> c \<and>
    map_of m (sorted_pair a b) = Some s1 \<and>
    map_of m (sorted_pair a c) = Some s2 \<and>
    map_of m (sorted_pair b c) = None
    \<longrightarrow> length (filter (\<lambda>v. ROLE v = r) (role_pass rtt m)) = 2 \<and>
        set (filter (\<lambda>v. ROLE v = r) (role_pass rtt m)) =
          {\<lparr>ROLE = r, TCODE_1 = fst (sorted_pair a b), TCODE_2 = snd (sorted_pair a b),
            RISK_FACTOR = s1\<rparr>,
           \<lparr>ROLE = r, TCODE_1 = fst (sorted_pair a c), TCODE_2 = snd (sorted_pair a c),
            RISK_FACTOR = s2\<rparr>}) \<and>
   (distinct (map fst rtt) \<and> (r, d) \<in> set rtt \<and>
    (\<forall>t1 \<in> set (list_of_dlist d). \<forall>t2 \<in> set (list_of_dlist d).
       map_of m (sorted_pair t1 t2) = None)
    \<longrightarrow> filter (\<lambda>v. ROLE v = r) (role_pass rtt m) = []) \<and>
   (distinct (map fst urt) \<and> (u, rd) \<in> set urt \<and> distinct (map fst rd) \<and> (r, d) \<in> set rd \<and>
    (\<forall>t1 \<in> set (list_of_dlist d). \<forall>t2 \<in> set (list_of_dlist d).
       map_of m (sorted_pair t1 t2) = None)
    \<longrightarrow> filter (\<lambda>v. USER_NAME v = u \<and> ROLE v = r) (user_pass urt m) = []) \<and>
   distinct (map (\<lambda>(t1, t2). sorted_pair t1 t2) (combinations2 (list_of_dlist d))) \<and>
   length (combinations2 (list_of_dlist d)) =
     length (list_of_dlist d) * (length (list_of_dlist d) - 1) div 2"
proof (intro conjI impI)
  assume a: "distinct (map fst rtt) \<and> (r, d) \<in> set rtt \<and>
    set (list_of_dlist d) = {a, b, c} \<and> a \<noteq> b \<and> a \<noteq> c \<and> b \<noteq> c \<and>
    map_of m (sorted_pair a b) = Some s1 \<and>
    map_of m (sorted_pair a c) = Some s2 \<and>
    map_of m (sorted_pair b c) = None"
  then have f: "filter (\<lambda>v. ROLE v = r) (role_pass rtt m) = role_pass [(r, d)] m"
    by (simp add: role_pass_of_role)
  from a have "conflicts_in m d = [(sorted_pair a b, s1), (sorted_pair a c, s2)] \<or>
         conflicts_in m d = [(sorted_pair a c, s2), (sorted_pair a b, s1)]"
    by (intro conflicts_in_three) simp_all
  then show "length (filter (\<lambda>v. ROLE v = r) (role_pass rtt m)) = 2"
    unfolding f by (auto simp: role_pass_def)
  from \<open>conflicts_in m d = [(sorted_pair a b, s1), (sorted_pair a c, s2)] \<or>
         conflicts_in m d = [(sorted_pair a c, s2), (sorted_pair a b, s1)]\<close>
  show "set (filter (\<lambda>v. ROLE v = r) (role_pass rtt m)) =
          {\<lparr>ROLE = r, TCODE_1 = fst (sorted_pair a b), TCODE_2 = snd (sorted_pair a b),
            RISK_FACTOR = s1\<rparr>,
           \<lparr>ROLE = r, TCODE_1 = fst (sorted_pair a c), TCODE_2 = snd (sorted_pair a c),
            RISK_FACTOR = s2\<rparr>}"
  proof
    assume c: "conflicts_in m d = [(sorted_pair a b, s1), (sorted_pair a c, s2)]"
    show ?thesis
      by (simp add: f role_pass_Cons [of r d "[]" m] c role_pass_Nil)
  next
    assume c: "conflicts_in m d = [(sorted_pair a c, s2), (sorted_pair a b, s1)]"
    show ?thesis
      by (simp add: f role_pass_Cons [of r d "[]" m] c role_pass_Nil insert_commute)
  qed
next
  assume a: "distinct (map fst rtt) \<and> (r, d) \<in> set rtt \<and>
    (\<forall>t1 \<in> set (list_of_dlist d). \<forall>t2 \<in> set (list_of_dlist d).
       map_of m (sorted_pair t1 t2) = None)"
  then have "conflicts_in m d = []"
    by (intro conflicts_in_none) simp
  moreover from a have "filter (\<lambda>v. ROLE v = r) (role_pass rtt m) = role_pass [(r, d)] m"
    by (simp add: role_pass_of_role)
  ultimately show "filter (\<lambda>v. ROLE v = r) (role_pass rtt m) = []"
    by (simp add: role_pass_Cons [of r d "[]" m] role_pass_Nil)
next
  assume a: "distinct (map fst urt) \<and> (u, rd) \<in> set urt \<and> distinct (map fst rd) \<and> (r, d) \<in> set rd \<and>
    (\<forall>t1 \<in> set (list_of_dlist d). \<forall>t2 \<in> set (list_of_dlist d).
       map_of m (sorted_pair t1 t2) = None)"
  then have "conflicts_in m d = []"
    by (intro conflicts_in_none) simp
  with a show "filter (\<lambda>v. USER_NAME v = u \<and> ROLE v = r) (user_pass urt m) = []"
    by (intro user_pass_none [of urt u rd r d m]) simp_all
next
  show "distinct (map (\<lambda>(t1, t2). sorted_pair t1 t2) (combinations2 (list_of_dlist d)))"
    by (rule distinct_sorted_combinations2) (rule distinct_list_of_dlist)
  show "length (combinations2 (list_of_dlist d)) =
     length (list_of_dlist d) * (length (list_of_dlist d) - 1) div 2"
    by (rule length_combinations2)
qed


theorem combinatorial_completeness_witness:
  "length (filter (\<lambda>v. ROLE v = ''R1'')
     (role_pass [(''R1'', Dlist.insert ''A'' (Dlist.insert ''B'' (Dlist.insert ''C'' Dlist.empty)))]
        [((''A'', ''B''), ''High''), ((''A'', ''C''), ''Low'')])) = 2 \<and>
   filter (\<lambda>v. ROLE v = ''R2'')
     (role_pass [(''R2'', Dlist.insert ''X'' (Dlist.insert ''Y'' (Dlist.insert ''Z'' Dlist.empty)))]
        [((''A'', ''B''), ''High''), ((''A'', ''C''), ''Low'')]) = [] \<and>
   filter (\<lambda>v. USER_NAME v = ''U'' \<and> ROLE v = ''R2'')
     (user_pass [(''U'', [(''R2'', Dlist.insert ''X'' (Dlist.insert ''Y'' (Dlist.insert ''Z'' Dlist.empty)))])]
        [((''A'', ''B''), ''High''), ((''A'', ''C''), ''Low'')]) = []"
proof -
  let ?d = "Dlist.insert ''A'' (Dlist.insert ''B'' (Dlist.insert ''C'' Dlist.empty))"
  let ?e = "Dlist.insert ''X'' (Dlist.insert ''Y'' (Dlist.insert ''Z'' Dlist.empty))"
  let ?m = "[((''A'', ''B''), ''High''), ((''A'', ''C''), ''Low'')]"
  have h1: "distinct (map fst [(''R1'', ?d)]) \<and> (''R1'', ?d) \<in> set [(''R1'', ?d)]"
    by simp
  have h2: "set (list_of_dlist ?d) = {''A'', ''B'', ''C''}"
    by simp
  have h3: "''A'' \<noteq> ''B'' \<and> ''A'' \<noteq> ''C'' \<and> ''B'' \<noteq> ''C''"
    by simp
  have h4: "map_of ?m (sorted_pair ''A'' ''B'') = Some ''High'' \<and>
            map_of ?m (sorted_pair ''A'' ''C'') = Some ''Low'' \<and>
            map_of ?m (sorted_pair ''B'' ''C'') = None"
    by (simp add: sorted_pair_def)
  have h5: "distinct (map fst [(''R2'', ?e)]) \<and> (''R2'', ?e) \<in> set [(''R2'', ?e)]"
    by simp
  have h6: "\<forall>t1 \<in> set (list_of_dlist ?e). \<forall>t2 \<in> set (list_of_dlist ?e).
              map_of ?m (sorted_pair t1 t2) = None"
    by (simp add: sorted_pair_def)
  have h7: "distinct (map fst [(''U'', [(''R2'', ?e)])]) \<and>
            (''U'', [(''R2'', ?e)]) \<in> set [(''U'', [(''R2'', ?e)])]"
    by simp
  from combinatorial_completeness [where rtt = "[(''R1'', ?d)]" and r = "''R1''" and d = ?d
      and a = "''A''" and b = "''B''" and c = "''C''" and m = ?m and ?s1.0 = "''High''" and ?s2.0 = "''Low''"]
    h1 h2 h3 h4
  have 1: "length (filter (\<lambda>v. ROLE v = ''R1'') (role_pass [(''R1'', ?d)] ?m)) = 2"
    by blast
  from combinatorial_completeness [where rtt = "[(''R2'', ?e)]" and r = "''R2''" and d = ?e
      and m = ?m and urt = "[(''U'', [(''R2'', ?e)])]" and u = "''U''" and rd = "[(''R2'', ?e)]"]
    h5 h6 h7
  have 2: "filter (\<lambda>v. ROLE v = ''R2'') (role_pass [(''R2'', ?e)] ?m) = [] \<and>
           filter (\<lambda>v. USER_NAME v = ''U'' \<and> ROLE v = ''R2'') (user_pass [(''U'', [(''R2'', ?e)])] ?m) = []"
    by blast
  from 1 2 show ?thesis by blast
qed

section \<open>One role, two users\<close>

lemma access_labels:
  "upper (strip ''USER NAME'') = ''USER NAME''"
  "upper (strip ''ROLE'') = ''ROLE''"
  "upper (strip ''AUTHORIZATION VALUE'') = ''AUTHORIZATION VALUE''"
  by code_simp+

lemma access_cells:
  "cell_at [''USER NAME'', ''ROLE'', ''AUTHORIZATION VALUE''] [x, y, z] ''USER NAME'' = x"
  "cell_at [''USER NAME'', ''ROLE'', ''AUTHORIZATION VALUE''] [x, y, z] ''ROLE'' = y"
  "cell_at [''USER NAME'', ''ROLE'', ''AUTHORIZATION VALUE''] [x, y, z] ''AUTHORIZATION VALUE'' = z"
  by (simp_all add: cell_at_def)

lemma access_row_std:
  "access_row [''USER NAME'', ''ROLE'', ''AUTHORIZATION VALUE''] [u, r, c] st =
     (let user = strip (str u); role = strip (str r); tcode = upper (strip (str c))
      in if user \<noteq> [] \<and> role \<noteq> [] \<and> tcode \<noteq> [] \<and> tcode \<noteq> ''NAN''
         then Inr (add_user_tcode user role tcode (fst st), add_tcode role tcode (snd st))
         else Inr st)"
  by (simp add: access_row_def getitem_def access_cells)

lemma process_user_access_std:
  "process_user_access \<lparr>columns = [''USER NAME'', ''ROLE'', ''AUTHORIZATION VALUE''], rows = rs\<rparr> =
     access_rows [''USER NAME'', ''ROLE'', ''AUTHORIZATION VALUE''] rs ([], [])"
  by (simp add: process_user_access_def normalize_columns_def access_labels)

text \<open>
  C5. Two users holding the same role, the first with the single code \<open>A\<close> and the
  second with the single code \<open>B\<close>, with the pair \<open>{A, B}\<close> in the rule book: the access
  table is built without error, the role-level pass emits the one violation of the role
  with that pair, and the user-level pass emits nothing.
\<close>

theorem aggregation_independence:
  assumes "U1 = strip (str u1)" and "U2 = strip (str u2)"
    and "R = strip (str r1)" and "R = strip (str r2)"
    and "A = upper (strip (str c1))" and "B = upper (strip (str c2))"
    and "U1 \<noteq> []" and "U2 \<noteq> []" and "U1 \<noteq> U2" and "R \<noteq> []"
    and "A \<noteq> []" and "B \<noteq> []" and "A \<noteq> ''NAN''" and "B \<noteq> ''NAN''" and "A \<noteq> B"
    and "map_of m (sorted_pair A B) = Some risk"
  shows "\<exists>urt rtt.
     process_user_access \<lparr>columns = [''USER NAME'', ''ROLE'', ''AUTHORIZATION VALUE''],
                          rows = [[u1, r1, c1], [u2, r2, c2]]\<rparr> = Inr (urt, rtt) \<and>
     analyze_violations urt rtt m =
       ([], [\<lparr>ROLE = R, TCODE_1 = fst (sorted_pair A B), TCODE_2 = snd (sorted_pair A B),
              RISK_FACTOR = risk\<rparr>])"
proof -
  have canon: "strip (str u1) = U1" "strip (str u2) = U2" "strip (str r1) = R" "strip (str r2) = R"
    "upper (strip (str c1)) = A" "upper (strip (str c2)) = B"
    using assms(1-6) by simp_all
  note ne = assms(7-15)
  have ba: "sorted_pair B A = sorted_pair A B"
    by (rule sorted_pair_commute)
  let ?urt = "[(U1, [(R, Dlist.insert A Dlist.empty)]), (U2, [(R, Dlist.insert B Dlist.empty)])]"
  let ?rtt = "[(R, Dlist.insert B (Dlist.insert A Dlist.empty))]"
  have build: "process_user_access \<lparr>columns = [''USER NAME'', ''ROLE'', ''AUTHORIZATION VALUE''],
                          rows = [[u1, r1, c1], [u2, r2, c2]]\<rparr> = Inr (?urt, ?rtt)"
    using ne by (simp add: process_user_access_std access_row_std canon Let_def)
  have l1: "list_of_dlist (Dlist.insert A Dlist.empty) = [A]"
    "list_of_dlist (Dlist.insert B Dlist.empty) = [B]"
    by simp_all
  have l2: "list_of_dlist (Dlist.insert B (Dlist.insert A Dlist.empty)) = [B, A]"
    using \<open>A \<noteq> B\<close> by simp
  have c1: "conflicts_in m (Dlist.insert A Dlist.empty) = []"
    "conflicts_in m (Dlist.insert B Dlist.empty) = []"
    unfolding conflicts_in_def l1 by simp_all
  have c2: "conflicts_in m (Dlist.insert B (Dlist.insert A Dlist.empty)) = [(sorted_pair A B, risk)]"
    unfolding conflicts_in_def l2 using assms(16) by (simp add: ba)
  have detect: "analyze_violations ?urt ?rtt m =
       ([], [\<lparr>ROLE = R, TCODE_1 = fst (sorted_pair A B), TCODE_2 = snd (sorted_pair A B),
              RISK_FACTOR = risk\<rparr>])"
    by (simp add: analyze_violations_def user_pass_def role_pass_def c1 c2)
  from build detect show ?thesis by blast
qed

theorem aggregation_independence_witness:
  "\<exists>urt rtt.
     process_user_access \<lparr>columns = [''USER NAME'', ''ROLE'', ''AUTHORIZATION VALUE''],
                          rows = [[Text ''User1'', Text ''R'', Text ''a''],
                                  [Text ''User2'', Text ''R'', Text ''b'']]\<rparr> = Inr (urt, rtt) \<and>
     analyze_violations urt rtt [((''A'', ''B''), ''High'')] =
       ([], [\<lparr>ROLE = ''R'', TCODE_1 = ''A'', TCODE_2 = ''B'', RISK_FACTOR = ''High''\<rparr>])"
proof -
  have h: "''User1'' = strip (str (Text ''User1''))" "''User2'' = strip (str (Text ''User2''))"
    "''R'' = strip (str (Text ''R''))" "''R'' = strip (str (Text ''R''))"
    "''A'' = upper (strip (str (Text ''a'')))" "''B'' = upper (strip (str (Text ''b'')))"
    by code_simp+
  have n: "''User1'' \<noteq> []" "''User2'' \<noteq> []" "''User1'' \<noteq> ''User2''" "''R'' \<noteq> []"
    "''A'' \<noteq> []" "''B'' \<noteq> []" "''A'' \<noteq> ''NAN''" "''B'' \<noteq> ''NAN''" "''A'' \<noteq> ''B''"
    by simp_all
  have sp: "sorted_pair ''A'' ''B'' = (''A'', ''B'')"
    by (simp add: sorted_pair_def)
  have l: "map_of [((''A'', ''B''), ''High'')] (sorted_pair ''A'' ''B'') = Some ''High''"
    by (simp add: sp)
  from aggregation_independence [OF h n l]
  show ?thesis by (simp add: sp)
qed

section \<open>A missing column\<close>

lemma rule_row_missing:
  assumes "\<not> {''TCODE1'', ''TCODE2'', ''ASK_RISK''} \<subseteq> set cols"
  shows "\<exists>c \<in> {''TCODE1'', ''TCODE2'', ''ASK_RISK''}. c \<notin> set cols \<and> rule_row cols row m = Inl (KeyError c)"
proof (cases "''TCODE1'' \<in> set cols")
  case False
  then show ?thesis by (simp add: rule_row_def getitem_def)
next
  case t1: True
  show ?thesis
  proof (cases "''TCODE2'' \<in> set cols")
    case False
    with t1 show ?thesis by (simp add: rule_row_def getitem_def)
  next
    case True
    with t1 assms have "''ASK_RISK'' \<notin> set cols" by simp
    with t1 True show ?thesis by (simp add: rule_row_def getitem_def)
  qed
qed

lemma access_row_missing:
  assumes "\<not> {''USER NAME'', ''ROLE'', ''AUTHORIZATION VALUE''} \<subseteq> set cols"
  shows "\<exists>c \<in> {''USER NAME'', ''ROLE'', ''AUTHORIZATION VALUE''}.
           c \<notin> set cols \<and> access_row cols row st = Inl (KeyError c)"
proof (cases "''USER NAME'' \<in> set cols")
  case False
  then show ?thesis by (simp add: access_row_def getitem_def)
next
  case t1: True
  show ?thesis
  proof (cases "''ROLE'' \<in> set cols")
    case False
    with t1 show ?thesis by (simp add: access_row_def getitem_def)
  next
    case True
    with t1 assms have "''AUTHORIZATION VALUE'' \<notin> set cols" by simp
    with t1 True show ?thesis by (simp add: access_row_def getitem_def)
  qed
qed

text \<open>
  C8, as the code has it. A table that has at least one row and lacks a required column
  makes the run fail with the \<open>KeyError\<close> of a missing column: the rule table first, the
  access table when the rule table was processed. (A table without rows is never read, so
  its columns are not looked at.)
\<close>

theorem missing_column_fails:
  "(rows rule_book_file \<noteq> [] \<and>
    \<not> {''TCODE1'', ''TCODE2'', ''ASK_RISK''} \<subseteq> set (columns (load_rule_book rule_book_file))
    \<longrightarrow> (\<exists>c \<in> {''TCODE1'', ''TCODE2'', ''ASK_RISK''}.
           c \<notin> set (columns (load_rule_book rule_book_file)) \<and>
           run_analysis rule_book_file user_access_file = Inl (KeyError c))) \<and>
   (process_rule_book (load_rule_book rule_book_file) = Inr m \<and>
    rows user_access_file \<noteq> [] \<and>
    \<not> {''USER NAME'', ''ROLE'', ''AUTHORIZATION VALUE''}
        \<subseteq> set (columns (normalize_columns user_access_file))
    \<longrightarrow> (\<exists>c \<in> {''USER NAME'', ''ROLE'', ''AUTHORIZATION VALUE''}.
           c \<notin> set (columns (normalize_columns user_access_file)) \<and>
           run_analysis rule_book_file user_access_file = Inl (KeyError c)))"
proof (intro conjI impI)
  let ?cols = "columns (load_rule_book rule_book_file)"
  assume a: "rows rule_book_file \<noteq> [] \<and> \<not> {''TCODE1'', ''TCODE2'', ''ASK_RISK''} \<subseteq> set ?cols"
  then obtain row rest where rs: "rows rule_book_file = row # rest"
    by (cases "rows rule_book_file") auto
  from a rule_row_missing [of ?cols row "[]"] obtain c
    where c: "c \<in> {''TCODE1'', ''TCODE2'', ''ASK_RISK''}" "c \<notin> set ?cols"
      and e: "rule_row ?cols row [] = Inl (KeyError c)"
    by blast
  have "rows (load_rule_book rule_book_file) = row # rest"
    using rs by (simp add: load_rule_book_def normalize_columns_def)
  with e have "process_rule_book (load_rule_book rule_book_file) = Inl (KeyError c)"
    by (simp add: process_rule_book_def)
  then have "run_analysis rule_book_file user_access_file = Inl (KeyError c)"
    by (simp add: run_analysis_def)
  with c show "\<exists>c \<in> {''TCODE1'', ''TCODE2'', ''ASK_RISK''}.
           c \<notin> set ?cols \<and> run_analysis rule_book_file user_access_file = Inl (KeyError c)"
    by blast
next
  let ?cols = "columns (normalize_columns user_access_file)"
  assume a: "process_rule_book (load_rule_book rule_book_file) = Inr m \<and>
    rows user_access_file \<noteq> [] \<and>
    \<not> {''USER NAME'', ''ROLE'', ''AUTHORIZATION VALUE''} \<subseteq> set ?cols"
  then obtain row rest where rs: "rows user_access_file = row # rest"
    by (cases "rows user_access_file") auto
  from a access_row_missing [of ?cols row "([], [])"] obtain c
    where c: "c \<in> {''USER NAME'', ''ROLE'', ''AUTHORIZATION VALUE''}" "c \<notin> set ?cols"
      and e: "access_row ?cols row ([], []) = Inl (KeyError c)"
    by blast
  from e rs have "process_user_access user_access_file = Inl (KeyError c)"
    by (simp add: process_user_access_def)
  with a have "run_analysis rule_book_file user_access_file = Inl (KeyError c)"
    by (simp add: run_analysis_def)
  with c show "\<exists>c \<in> {''USER NAME'', ''ROLE'', ''AUTHORIZATION VALUE''}.
           c \<notin> set ?cols \<and> run_analysis rule_book_file user_access_file = Inl (KeyError c)"
    by blast
qed

theorem missing_column_fails_witness:
  "run_analysis
     \<lparr>columns = [''TCODE1'', ''ASK_RISK''], rows = [[Text ''TX1'', Text ''High'']]\<rparr>
     \<lparr>columns = [''USER NAME'', ''ROLE'', ''AUTHORIZATION VALUE''], rows = []\<rparr>
     = Inl (KeyError ''TCODE2'') \<and>
   run_analysis
     \<lparr>columns = [''TCODE1'', ''TCODE2'', ''ASK_RISK''], rows = [[Text ''TX1'', Text ''TX2'', Text ''High'']]\<rparr>
     \<lparr>columns = [''USER NAME'', ''ROLE''], rows = [[Text ''Alice'', Text ''R1'']]\<rparr>
     = Inl (KeyError ''AUTHORIZATION VALUE'')"
proof -
  let ?bad_rules = "\<lparr>columns = [''TCODE1'', ''ASK_RISK''], rows = [[Text ''TX1'', Text ''High'']]\<rparr>"
  let ?no_access = "\<lparr>columns = [''USER NAME'', ''ROLE'', ''AUTHORIZATION VALUE''], rows = []\<rparr>"
  let ?rules = "\<lparr>columns = [''TCODE1'', ''TCODE2'', ''ASK_RISK''],
                  rows = [[Text ''TX1'', Text ''TX2'', Text ''High'']]\<rparr>"
  let ?bad_access = "\<lparr>columns = [''USER NAME'', ''ROLE''], rows = [[Text ''Alice'', Text ''R1'']]\<rparr>"
  have c1: "columns (load_rule_book ?bad_rules) = [''TCODE1'', ''ASK_RISK'']"
    by code_simp
  have c2: "columns (normalize_columns ?bad_access) = [''USER NAME'', ''ROLE'']"
    by code_simp
  have p: "process_rule_book (load_rule_book ?rules) = Inr [((''TX1'', ''TX2''), ''High'')]"
    by code_simp
  have h1: "rows ?bad_rules \<noteq> [] \<and>
      \<not> {''TCODE1'', ''TCODE2'', ''ASK_RISK''} \<subseteq> set (columns (load_rule_book ?bad_rules))"
    unfolding c1 by simp
  have h2: "process_rule_book (load_rule_book ?rules) = Inr [((''TX1'', ''TX2''), ''High'')] \<and>
      rows ?bad_access \<noteq> [] \<and>
      \<not> {''USER NAME'', ''ROLE'', ''AUTHORIZATION VALUE''} \<subseteq> set (columns (normalize_columns ?bad_access))"
    unfolding c2 using p by simp
  from missing_column_fails [where rule_book_file = ?bad_rules and user_access_file = ?no_access] h1
  have 1: "run_analysis ?bad_rules ?no_access = Inl (KeyError ''TCODE2'')"
    unfolding c1 by auto
  from missing_column_fails [where rule_book_file = ?rules and user_access_file = ?bad_access
      and m = "[((''TX1'', ''TX2''), ''High'')]"] h2
  have 2: "run_analysis ?rules ?bad_access = Inl (KeyError ''AUTHORIZATION VALUE'')"
    unfolding c2 by auto
  from 1 2 show ?thesis by blast
qed

text \<open>
  Two tables without rows, neither with the required columns: the run succeeds, with the
  result of a run that found nothing.
\<close>

theorem missing_column_empty_table_counterexample:
  "''TCODE1'' \<notin> set (columns (load_rule_book \<lparr>columns = [''CODE_A'', ''CODE_B'', ''RISK''], rows = []\<rparr>)) \<and>
   ''USER NAME'' \<notin> set (columns (normalize_columns \<lparr>columns = [''USER''], rows = []\<rparr>)) \<and>
   run_analysis \<lparr>columns = [''CODE_A'', ''CODE_B'', ''RISK''], rows = []\<rparr>
                \<lparr>columns = [''USER''], rows = []\<rparr>
   = Inr \<lparr>conflict_pairs = 0, total_users = 0, total_roles = 0,
          user_violations = [], role_violations = []\<rparr>"
  by code_simp

section \<open>Rows with an empty user or role cell\<close>

text \<open>
  What the access loop does skip: a row that fails its test leaves both structures as
  they were. The test rejects an empty or blank user, role or code and the code \<open>NAN\<close>.
\<close>

lemma access_row_skipped:
  assumes "{''USER NAME'', ''ROLE'', ''AUTHORIZATION VALUE''} \<subseteq> set cols"
    and "\<not> access_kept cols row"
  shows "access_row cols row st = Inr st"
  using assms by (auto simp: access_row_def getitem_def access_kept_def Let_def)

text \<open>
  C1 at a failing input. The first two access rows have no user name and the third has
  no role. None of them is skipped: the empty cell prints as \<open>nan\<close>, which the test of the
  loop accepts for a user and for a role, so the run reports a user and a role called
  \<open>nan\<close> and a user-level violation of the user \<open>nan\<close>.
\<close>

theorem empty_user_or_role_row_kept:
  "run_analysis
     \<lparr>columns = [''TCODE1'', ''TCODE2'', ''ASK_RISK''],
      rows = [[Text ''TX1'', Text ''TX2'', Text ''High'']]\<rparr>
     \<lparr>columns = [''USER NAME'', ''ROLE'', ''AUTHORIZATION VALUE''],
      rows = [[NaN, Text ''R1'', Text ''TX1''],
              [NaN, Text ''R1'', Text ''TX2''],
              [Text ''Bob'', NaN, Text ''TX1'']]\<rparr>
   = Inr \<lparr>conflict_pairs = 1, total_users = 2, total_roles = 2,
          user_violations =
            [\<lparr>ROLE = ''R1'', TCODE_1 = ''TX1'', TCODE_2 = ''TX2'',
              RISK_FACTOR = ''High'', USER_NAME = ''nan''\<rparr>],
          role_violations =
            [\<lparr>ROLE = ''R1'', TCODE_1 = ''TX1'', TCODE_2 = ''TX2'',
              RISK_FACTOR = ''High''\<rparr>]\<rparr>"
  by code_simp

section \<open>The users and roles of the access structures\<close>

lemma add_tcode_keys:
  "map fst (add_tcode r c d) = (if r \<in> fst ` set d then map fst d else map fst d @ [r])"
  by (induction d) (auto split: if_splits)

lemma add_user_tcode_keys:
  "map fst (add_user_tcode u r c d) = (if u \<in> fst ` set d then map fst d else map fst d @ [u])"
  by (induction d) (auto split: if_splits)

lemma access_row_Inr:
  assumes "access_row cols row st = Inr st'"
  shows "st' = (if access_kept cols row
                then (add_user_tcode (strip (str (cell_at cols row ''USER NAME'')))
                        (strip (str (cell_at cols row ''ROLE'')))
                        (upper (strip (str (cell_at cols row ''AUTHORIZATION VALUE'')))) (fst st),
                      add_tcode (strip (str (cell_at cols row ''ROLE'')))
                        (upper (strip (str (cell_at cols row ''AUTHORIZATION VALUE'')))) (snd st))
                else st)"
  using assms
  by (auto simp: access_row_def getitem_def access_kept_def Let_def split: if_splits)

lemma access_row_keys:
  assumes "access_row cols row (urt, rtt) = Inr (urt', rtt')"
    and "distinct (map fst urt)" and "distinct (map fst rtt)"
  shows "distinct (map fst urt') \<and> distinct (map fst rtt') \<and>
         set (map fst urt') = set (map fst urt) \<union>
           {strip (str (cell_at cols r ''USER NAME'')) |r. r = row \<and> access_kept cols r} \<and>
         set (map fst rtt') = set (map fst rtt) \<union>
           {strip (str (cell_at cols r ''ROLE'')) |r. r = row \<and> access_kept cols r}"
proof (cases "access_kept cols row")
  case True
  with access_row_Inr [OF assms(1)] assms(2,3) show ?thesis
    by (auto simp: add_tcode_keys add_user_tcode_keys)
next
  case False
  with access_row_Inr [OF assms(1)] assms(2,3) show ?thesis
    by auto
qed

lemma access_rows_keys:
  assumes "access_rows cols rs (urt, rtt) = Inr (urt', rtt')"
    and "distinct (map fst urt)" and "distinct (map fst rtt)"
  shows "distinct (map fst urt') \<and> distinct (map fst rtt') \<and>
         set (map fst urt') = set (map fst urt) \<union>
           {strip (str (cell_at cols r ''USER NAME'')) |r. r \<in> set rs \<and> access_kept cols r} \<and>
         set (map fst rtt') = set (map fst rtt) \<union>
           {strip (str (cell_at cols r ''ROLE'')) |r. r \<in> set rs \<and> access_kept cols r}"
  using assms
proof (induction rs arbitrary: urt rtt)
  case Nil
  then show ?case by simp
next
  case (Cons row rs)
  from Cons.prems(1) obtain u1 r1
    where step: "access_row cols row (urt, rtt) = Inr (u1, r1)"
      and rest: "access_rows cols rs (u1, r1) = Inr (urt', rtt')"
    by (auto split: sum.splits)
  note k = access_row_keys [OF step Cons.prems(2,3)]
  from k have d: "distinct (map fst u1)" "distinct (map fst r1)" by simp_all
  note i = Cons.IH [OF rest d]
  have u: "set (map fst urt') = set (map fst urt) \<union>
           {strip (str (cell_at cols r ''USER NAME'')) |r. r \<in> set (row # rs) \<and> access_kept cols r}"
    using k i by auto
  have r: "set (map fst rtt') = set (map fst rtt) \<union>
           {strip (str (cell_at cols r ''ROLE'')) |r. r \<in> set (row # rs) \<and> access_kept cols r}"
    using k i by auto
  from i u r show ?case by blast
qed


text \<open>
  C2, as the code has it. User and role names are trimmed and their letter case is kept
  (only the code is uppercased as well). The users of the access structure are exactly the
  trimmed user fields of the rows that pass the test of the loop, each once, and likewise
  the roles: two rows go to the same user (role) exactly when their user (role) fields are
  equal after trimming.
\<close>

theorem names_trimmed_case_kept:
  "process_user_access user_df = Inr (urt, rtt) \<longrightarrow>
     distinct (map fst urt) \<and> distinct (map fst rtt) \<and>
     set (map fst urt) =
       {strip (str (cell_at (columns (normalize_columns user_df)) r ''USER NAME'')) |r.
          r \<in> set (rows user_df) \<and> access_kept (columns (normalize_columns user_df)) r} \<and>
     set (map fst rtt) =
       {strip (str (cell_at (columns (normalize_columns user_df)) r ''ROLE'')) |r.
          r \<in> set (rows user_df) \<and> access_kept (columns (normalize_columns user_df)) r}"
proof
  assume "process_user_access user_df = Inr (urt, rtt)"
  then have "access_rows (columns (normalize_columns user_df)) (rows user_df) ([], []) = Inr (urt, rtt)"
    by (simp add: process_user_access_def)
  from access_rows_keys [OF this]
  show "distinct (map fst urt) \<and> distinct (map fst rtt) \<and>
     set (map fst urt) =
       {strip (str (cell_at (columns (normalize_columns user_df)) r ''USER NAME'')) |r.
          r \<in> set (rows user_df) \<and> access_kept (columns (normalize_columns user_df)) r} \<and>
     set (map fst rtt) =
       {strip (str (cell_at (columns (normalize_columns user_df)) r ''ROLE'')) |r.
          r \<in> set (rows user_df) \<and> access_kept (columns (normalize_columns user_df)) r}"
    by simp
qed

theorem names_trimmed_case_kept_witness:
  "distinct [''Alice'', ''ALICE''] \<and> distinct [''R1'', ''r1''] \<and>
   set [''Alice'', ''ALICE''] =
     {strip (str (cell_at [''USER NAME'', ''ROLE'', ''AUTHORIZATION VALUE''] r ''USER NAME'')) |r.
        r \<in> set [[Text '' Alice'', Text ''R1'', Text ''TX1''],
                  [Text ''Alice '', Text ''R1 '', Text ''TX2''],
                  [Text ''ALICE'', Text ''r1'', Text ''TX1'']] \<and>
        access_kept [''USER NAME'', ''ROLE'', ''AUTHORIZATION VALUE''] r} \<and>
   set [''R1'', ''r1''] =
     {strip (str (cell_at [''USER NAME'', ''ROLE'', ''AUTHORIZATION VALUE''] r ''ROLE'')) |r.
        r \<in> set [[Text '' Alice'', Text ''R1'', Text ''TX1''],
                  [Text ''Alice '', Text ''R1 '', Text ''TX2''],
                  [Text ''ALICE'', Text ''r1'', Text ''TX1'']] \<and>
        access_kept [''USER NAME'', ''ROLE'', ''AUTHORIZATION VALUE''] r}"
proof -
  let ?df = "\<lparr>columns = [''User Name '', ''role'', ''Authorization Value''],
              rows = [[Text '' Alice'', Text ''R1'', Text ''TX1''],
                      [Text ''Alice '', Text ''R1 '', Text ''TX2''],
                      [Text ''ALICE'', Text ''r1'', Text ''TX1'']]\<rparr>"
  let ?d12 = "Dlist.insert ''TX2'' (Dlist.insert ''TX1'' Dlist.empty)"
  let ?d1 = "Dlist.insert ''TX1'' Dlist.empty"
  let ?urt = "[(''Alice'', [(''R1'', ?d12)]), (''ALICE'', [(''r1'', ?d1)])]"
  let ?rtt = "[(''R1'', ?d12), (''r1'', ?d1)]"
  have c: "columns (normalize_columns ?df) = [''USER NAME'', ''ROLE'', ''AUTHORIZATION VALUE'']"
    by code_simp
  have h: "process_user_access ?df = Inr (?urt, ?rtt)"
    by code_simp
  from names_trimmed_case_kept [of ?df ?urt ?rtt] h
  show ?thesis
    unfolding c by simp
qed

text \<open>
  Two access rows whose user and role differ in letter case only: they stay two users and
  two roles, so neither level sees the two codes together and no violation is reported.
\<close>

theorem letter_case_not_merged_counterexample:
  "run_analysis
     \<lparr>columns = [''TCODE1'', ''TCODE2'', ''ASK_RISK''],
      rows = [[Text ''TX1'', Text ''TX2'', Text ''High'']]\<rparr>
     \<lparr>columns = [''USER NAME'', ''ROLE'', ''AUTHORIZATION VALUE''],
      rows = [[Text ''alice'', Text ''r1'', Text ''TX1''],
              [Text ''ALICE'', Text ''R1'', Text ''TX2'']]\<rparr>
   = Inr \<lparr>conflict_pairs = 1, total_users = 2, total_roles = 2,
          user_violations = [], role_violations = []\<rparr> \<and>
   strip (str (Text ''alice'')) \<noteq> upper (strip (str (Text ''alice'')))"
  by code_simp

end
